theory Spec2Isabelle
  imports Main "HOL-Library.Sublist"
begin

section \<open>Text helpers: the string and regular-expression operations the scraper uses\<close>

text \<open>
  Text is a list of bytes (UTF-8). Digits are the ASCII digits, white space is the ASCII
  white space of Python's \<^verbatim>\<open>str.isspace\<close>, and \<^verbatim>\<open>lower()\<close> acts on ASCII letters.
\<close>

definition is_digit :: "char \<Rightarrow> bool" where
  "is_digit c = (48 \<le> (of_char c :: nat) \<and> (of_char c :: nat) \<le> 57)"

definition is_space :: "char \<Rightarrow> bool" where
  "is_space c = ((of_char c :: nat) \<in> {9, 10, 11, 12, 13, 28, 29, 30, 31, 32})"

definition lower_char :: "char \<Rightarrow> char" where
  "lower_char c =
     (case map_of (zip ''ABCDEFGHIJKLMNOPQRSTUVWXYZ'' ''abcdefghijklmnopqrstuvwxyz'') c of
        Some l \<Rightarrow> l
      | None \<Rightarrow> c)"

definition lower :: "string \<Rightarrow> string" where
  "lower s = map lower_char s"

definition strip :: "string \<Rightarrow> string" where
  "strip s = rev (dropWhile is_space (rev (dropWhile is_space s)))"

text \<open>\<^verbatim>\<open>int(ds)\<close> on a run of decimal digits.\<close>

definition py_int :: "string \<Rightarrow> nat" where
  "py_int ds = foldl (\<lambda>n c. 10 * n + ((of_char c :: nat) - 48)) 0 ds"

text \<open>\<^verbatim>\<open>str(n)\<close> of a natural number, as the f-string of the fallback slug renders it.\<close>

fun str_nat :: "nat \<Rightarrow> string" where
  "str_nat n =
     (if n < 10 then [''0123456789'' ! n]
      else str_nat (n div 10) @ [''0123456789'' ! (n mod 10)])"

declare str_nat.simps [simp del]

text \<open>\<^verbatim>\<open>sub in s\<close>.\<close>

fun contains :: "string \<Rightarrow> string \<Rightarrow> bool" where
  "contains sub [] = (sub = [])"
| "contains sub (c # cs) = (prefix sub (c # cs) \<or> contains sub cs)"

text \<open>
  \<^verbatim>\<open>re.search(r'\+(\d+)', s)\<close>: the leftmost plus sign followed by a digit; the group is
  the whole run of digits after it, converted by \<^verbatim>\<open>int\<close>. The first element of
  \<^verbatim>\<open>re.findall(r'\+(\d+)', s)\<close> is the same group.
\<close>

fun search_plus :: "string \<Rightarrow> nat option" where
  "search_plus [] = None"
| "search_plus (c # cs) =
     (if c = CHR ''+'' \<and> takeWhile is_digit cs \<noteq> []
      then Some (py_int (takeWhile is_digit cs))
      else search_plus cs)"

text \<open>
  \<^verbatim>\<open>re.search(r'(\d+)\s*nodes?', s)\<close> and its localized sibling, with the word given as
  \<open>w\<close> (\<^verbatim>\<open>node\<close>, \<^verbatim>\<open>nodo\<close>): at the leftmost position where a run of digits, then a
  run of white space, then the word begins; the group is the run of digits.
\<close>

fun search_count :: "string \<Rightarrow> string \<Rightarrow> nat option" where
  "search_count w [] = None"
| "search_count w (c # cs) =
     (if is_digit c \<and> prefix w (dropWhile is_space (dropWhile is_digit (c # cs)))
      then Some (py_int (takeWhile is_digit (c # cs)))
      else search_count w cs)"

text \<open>\<^verbatim>\<open>re.search(r'/workflows/\d+', href)\<close> as a truth value.\<close>

fun search_workflow_id :: "string \<Rightarrow> bool" where
  "search_workflow_id [] = False"
| "search_workflow_id (c # cs) =
     ((prefix ''/workflows/'' (c # cs) \<and> takeWhile is_digit (drop 11 (c # cs)) \<noteq> [])
      \<or> search_workflow_id cs)"

text \<open>
  \<^verbatim>\<open>re.search(r'/workflows/(\d+-[^/]+)', href)\<close>: the group is the digits, the hyphen and
  the run of characters up to the next slash.
\<close>

definition match_slug_at :: "string \<Rightarrow> string option" where
  "match_slug_at s =
     (if prefix ''/workflows/'' s then
        (let ds = takeWhile is_digit (drop 11 s)
         in case dropWhile is_digit (drop 11 s) of
              [] \<Rightarrow> None
            | d # r \<Rightarrow>
                if ds \<noteq> [] \<and> d = CHR ''-'' \<and> takeWhile (\<lambda>c. c \<noteq> CHR ''/'') r \<noteq> []
                then Some (ds @ ''-'' @ takeWhile (\<lambda>c. c \<noteq> CHR ''/'') r)
                else None)
      else None)"

fun search_slug :: "string \<Rightarrow> string option" where
  "search_slug [] = None"
| "search_slug (c # cs) =
     (case match_slug_at (c # cs) of Some g \<Rightarrow> Some g | None \<Rightarrow> search_slug cs)"


section \<open>Configuration constants of \<^verbatim>\<open>N8NComprehensiveWorkflowScraper\<close>\<close>

definition BASE_URL :: string where
  "BASE_URL = ''https://n8n.io/workflows/''"

definition MIN_NODES :: nat where
  "MIN_NODES = 6"

definition DOWNLOAD_BATCH_SIZE :: nat where
  "DOWNLOAD_BATCH_SIZE = 15"

definition MAX_WORKFLOWS_PER_SUBCATEGORY :: nat where
  "MAX_WORKFLOWS_PER_SUBCATEGORY = 150"

section \<open>The rendered listing page, as the browser hands it to the scraper\<close>

text \<open>
  A listing entry is what the browser answers for one matched element: its \<^verbatim>\<open>href\<close>
  attribute, the inner text of the first descendant matching a selector
  (\<^verbatim>\<open>element.query_selector(sel)\<close>, \<open>None\<close> when nothing matches), its node list
  (\<^verbatim>\<open>element.query_selector('ul')\<close>) and its own inner text. Of the node list the code
  reads the number of \<^verbatim>\<open>li:has([role="tooltip"])\<close> items and the inner texts of the
  \<^verbatim>\<open>li span:not([role])\<close> elements, in document order. An element on which the browser
  raises (a handle that went stale) is \<open>Stale\<close>.
\<close>

record node_list =
  visible_items :: nat
  plus_texts :: "string list"

record card =
  href :: "string option"
  sub_text :: "string \<Rightarrow> string option"
  ul :: "node_list option"
  inner_text :: string

datatype element = Stale | Card card

text \<open>
  \<^verbatim>\<open>page.query_selector_all(selector)\<close>: the matched elements, or \<open>None\<close> when the call
  raises.
\<close>

type_synonym page = "string \<Rightarrow> element list option"

text \<open>The dictionary \<^verbatim>\<open>workflow_data\<close>.\<close>

record workflow =
  title :: string
  slug :: string
  url :: string
  nodes :: nat
  category :: string
  has_price :: bool
  is_free :: bool

section \<open>\<^verbatim>\<open>extract_workflow_links\<close>\<close>

definition workflow_selectors :: "string list" where
  \<open>workflow_selectors =
     [''a[href*='' @ [CHR 0x27] @ ''/workflows/'' @ [CHR 0x27] @ '']'',
      ''link[href*='' @ [CHR 0x27] @ ''/workflows/'' @ [CHR 0x27] @ '']'',
      ''[data-workflow-id]'']\<close>

definition title_selector :: string where
  \<open>title_selector = ''h3, .workflow-title, [class*="title"]''\<close>

definition price_selectors :: "string list" where
  \<open>price_selectors =
     [''font[dir="auto"][style*="vertical-align: inherit;"]'',
      ''font:has-text("$")'',
      ''span:has-text("$")'',
      ''div:has-text("$")'']\<close>

definition free_selectors :: "string list" where
  \<open>free_selectors =
     [''span:has-text("Free")'',
      ''div:has-text("Free")'',
      ''span:has-text("free")'',
      ''div:has-text("free")'']\<close>

text \<open>The test that the link is an individual workflow and not a category.\<close>

definition is_workflow_href :: "string option \<Rightarrow> bool" where
  "is_workflow_href h =
     (case h of
        None \<Rightarrow> False
      | Some s \<Rightarrow>
          s \<noteq> [] \<and> contains ''/workflows/'' s \<and> \<not> contains ''/workflows/categories/'' s
          \<and> search_workflow_id s)"

definition extract_title :: "card \<Rightarrow> string" where
  "extract_title c =
     (case sub_text c title_selector of Some t \<Rightarrow> strip t | None \<Rightarrow> ''Unknown Title'')"

definition extract_slug :: "string \<Rightarrow> nat \<Rightarrow> string" where
  "extract_slug h n =
     (case search_slug h of Some g \<Rightarrow> g | None \<Rightarrow> ''workflow-'' @ str_nat n)"

text \<open>
  Method 1: the loop over the \<^verbatim>\<open>li span:not([role])\<close> elements, which stops at the
  first text holding a \<^verbatim>\<open>+N\<close>; \<^verbatim>\<open>plus_indicator\<close> starts at 0.
\<close>

fun plus_indicator :: "string list \<Rightarrow> nat" where
  "plus_indicator [] = 0"
| "plus_indicator (t # ts) =
     (case search_plus (strip t) of Some n \<Rightarrow> n | None \<Rightarrow> plus_indicator ts)"

definition structural_count :: "card \<Rightarrow> nat" where
  "structural_count c =
     (case ul c of
        None \<Rightarrow> 0
      | Some l \<Rightarrow> visible_items l + plus_indicator (plus_texts l))"

text \<open>Method 2, alone: the first \<^verbatim>\<open>+N\<close> of the entry's whole text.\<close>

definition overflow_only :: "card \<Rightarrow> nat" where
  "overflow_only c = (case search_plus (inner_text c) of Some n \<Rightarrow> n | None \<Rightarrow> 0)"

text \<open>Method 3, alone: the two text patterns, tried in order on the lowercased text.\<close>

definition text_pattern_count :: "card \<Rightarrow> nat" where
  "text_pattern_count c =
     (case search_count ''node'' (lower (inner_text c)) of
        Some n \<Rightarrow> n
      | None \<Rightarrow>
          (case search_count ''nodo'' (lower (inner_text c)) of
             Some n \<Rightarrow> n
           | None \<Rightarrow> 0))"

text \<open>The three methods chained: each runs only while \<^verbatim>\<open>nodes_count == 0\<close>.\<close>

definition nodes_count :: "card \<Rightarrow> nat" where
  "nodes_count c =
     (let n1 = structural_count c;
          n2 = (if n1 = 0 then overflow_only c else n1);
          n3 = (if n2 = 0 then text_pattern_count c else n2)
      in n3)"

definition has_currency :: "string \<Rightarrow> bool" where
  "has_currency t =
     (contains ''$'' t \<or> contains [CHR 0xE2, CHR 0x82, CHR 0xAC] t
      \<or> contains [CHR 0xC2, CHR 0xA3] t)"

fun detect_price :: "card \<Rightarrow> string list \<Rightarrow> bool" where
  "detect_price c [] = False"
| "detect_price c (s # ss) =
     (case sub_text c s of
        None \<Rightarrow> detect_price c ss
      | Some t \<Rightarrow> if has_currency (strip t) then True else detect_price c ss)"

fun detect_free :: "card \<Rightarrow> string list \<Rightarrow> bool" where
  "detect_free c [] = False"
| "detect_free c (s # ss) =
     (case sub_text c s of
        None \<Rightarrow> detect_free c ss
      | Some t \<Rightarrow> if contains ''free'' (lower (strip t)) then True else detect_free c ss)"

text \<open>
  The record built for one entry. \<open>uj\<close> is \<^verbatim>\<open>urllib.parse.urljoin\<close>, \<open>cat\<close> the category
  name and \<open>ws\<close> the list \<^verbatim>\<open>workflows\<close> collected so far in this call.
\<close>

definition workflow_data ::
  "(string \<Rightarrow> string \<Rightarrow> string) \<Rightarrow> string \<Rightarrow> workflow list \<Rightarrow> card \<Rightarrow> workflow" where
  "workflow_data uj cat ws c =
     \<lparr>title = extract_title c,
      slug = extract_slug (the (href c)) (length ws),
      url = uj BASE_URL (the (href c)),
      nodes = nodes_count c,
      category = cat,
      has_price = detect_price c price_selectors,
      is_free = detect_free c free_selectors\<rparr>"

text \<open>The combined filter of the source, without the duplicate test.\<close>

definition accepted :: "workflow \<Rightarrow> bool" where
  "accepted w = (nodes w > 0 \<and> nodes w \<ge> MIN_NODES \<and> \<not> has_price w \<and> is_free w)"

text \<open>
  The body of the loop over the elements: an element that raises, or whose link is not an
  individual workflow, leaves the list as it is.
\<close>

definition process_element ::
  "(string \<Rightarrow> string \<Rightarrow> string) \<Rightarrow> string \<Rightarrow> workflow list \<Rightarrow> element \<Rightarrow> workflow list" where
  "process_element uj cat ws e =
     (case e of
        Stale \<Rightarrow> ws
      | Card c \<Rightarrow>
          if is_workflow_href (href c) then
            (let w = workflow_data uj cat ws c
             in if accepted w \<and> w \<notin> set ws then ws @ [w] else ws)
          else ws)"

text \<open>
  The loop over the selectors: a \<^verbatim>\<open>query_selector_all\<close> that raises leaves the function
  through the outer handler, with the list collected so far.
\<close>

fun extract_selectors ::
  "(string \<Rightarrow> string \<Rightarrow> string) \<Rightarrow> string \<Rightarrow> page \<Rightarrow> string list \<Rightarrow> workflow list \<Rightarrow> workflow list" where
  "extract_selectors uj cat p [] ws = ws"
| "extract_selectors uj cat p (s # ss) ws =
     (case p s of
        None \<Rightarrow> ws
      | Some es \<Rightarrow> extract_selectors uj cat p ss (foldl (process_element uj cat) ws es))"

definition extract_workflow_links ::
  "(string \<Rightarrow> string \<Rightarrow> string) \<Rightarrow> page \<Rightarrow> string \<Rightarrow> workflow list" where
  "extract_workflow_links uj p cat = extract_selectors uj cat p workflow_selectors []"


section \<open>The scraper's state: files, statistics and the calls made on the browser\<close>

text \<open>
  The download directory holds one entry per name: a regular file, or a directory with its
  own files (name to content). A category name and a file name are single path components.
\<close>

datatype node = File string | Dir "string \<Rightarrow> string option"

type_synonym fs = "string \<Rightarrow> node option"

datatype error = FileExistsError | PlaywrightError

text \<open>\<^verbatim>\<open>category_dir.mkdir(exist_ok=True)\<close>, which raises when the path is a regular file.\<close>

definition mkdir_exist_ok :: "fs \<Rightarrow> string \<Rightarrow> error + fs" where
  "mkdir_exist_ok f c =
     (case f c of
        None \<Rightarrow> Inr (f(c \<mapsto> Dir Map.empty))
      | Some (Dir d) \<Rightarrow> Inr f
      | Some (File t) \<Rightarrow> Inl FileExistsError)"

definition dir_entries :: "fs \<Rightarrow> string \<Rightarrow> (string \<Rightarrow> string option)" where
  "dir_entries f c = (case f c of Some (Dir d) \<Rightarrow> d | _ \<Rightarrow> Map.empty)"

definition file_name :: "workflow \<Rightarrow> string" where
  "file_name w = slug w @ ''.json''"

text \<open>\<^verbatim>\<open>file_path.exists()\<close> for \<^verbatim>\<open>download_dir / category / (slug + '.json')\<close>.\<close>

definition file_exists :: "fs \<Rightarrow> workflow \<Rightarrow> bool" where
  "file_exists f w = (dir_entries f (category w) (file_name w) \<noteq> None)"

definition write_file :: "fs \<Rightarrow> workflow \<Rightarrow> string \<Rightarrow> fs" where
  "write_file f w t = f(category w \<mapsto> Dir ((dir_entries f (category w))(file_name w \<mapsto> t)))"

record global_stats =
  categories_explored :: nat
  subcategories_explored :: nat
  total_workflows_found :: nat
  total_workflows_downloaded :: nat
  total_errors :: nat

record cat_stats =
  downloaded :: nat
  errors :: nat
  found :: nat

text \<open>
  The calls that leave the process, in the order they are made: tabs opened and closed,
  navigations (of a download tab to a workflow, of the exploration page to a listing),
  clicks on the load-more control, batches handed to \<^verbatim>\<open>download_batch_immediately\<close>, the
  downloads it starts, and the final report.
\<close>

datatype event =
    NewTab nat
  | CloseTab nat
  | Goto nat string
  | Visit string
  | LoadMore
  | Batch "workflow list"
  | Download nat workflow
  | NewPage
  | ClosePage
  | PrintStatistics
  | CloseBrowser

record state =
  files :: fs
  stats :: global_stats
  category_stats :: "string \<Rightarrow> cat_stats option"
  trace :: "event list"

definition emit :: "event list \<Rightarrow> state \<Rightarrow> state" where
  "emit es st = st\<lparr>trace := trace st @ es\<rparr>"

text \<open>A call either returns a value or raises; both leave a state behind.\<close>

datatype 'a outcome = Raised error state | Returned 'a state

section \<open>The site, as the browser shows it\<close>

text \<open>
  A control looked up by \<^verbatim>\<open>query_selector\<close> and asked \<^verbatim>\<open>is_visible()\<close>: absent, present
  and hidden, visible (then it is clicked), or a call on it raises.
\<close>

datatype control = Missing | Hidden | Visible | Broken

text \<open>What a download tab meets after \<^verbatim>\<open>page.goto(workflow['url'])\<close>.\<close>

record detail_page =
  goto_raises :: bool
  page_url :: string
  use_button :: control
  copy_button :: "string \<Rightarrow> control"
  clipboard :: "string option"

text \<open>
  A listing: whether the first navigation succeeds and, for the \<open>k\<close>-th pass of the
  pagination loop, the rendered page and its load-more control.
\<close>

record listing_view =
  content :: page
  load_more :: control

record listing =
  goto_ok :: bool
  views :: "nat \<Rightarrow> listing_view"

text \<open>
  A category link of the front page: its \<^verbatim>\<open>href\<close> attribute and its inner text, or an
  element on which the browser raises.
\<close>

datatype link = StaleLink | Link "string option" string

text \<open>
  Everything the program consumes and does not define: \<^verbatim>\<open>urljoin\<close>, \<^verbatim>\<open>json.loads\<close>
  (\<open>None\<close> for \<^verbatim>\<open>JSONDecodeError\<close>), \<^verbatim>\<open>json.dump\<close> as the text it writes, and the site:
  the detail page behind a workflow URL, the listing behind a category URL, whether the
  \<open>k\<close>-th navigation to the front page succeeds, and what \<^verbatim>\<open>query_selector_all\<close>
  finds on the front page (\<open>None\<close> when it raises).
\<close>

record 'j world =
  urljoin :: "string \<Rightarrow> string \<Rightarrow> string"
  json_loads :: "string \<Rightarrow> 'j option"
  json_dump :: "'j \<Rightarrow> string"
  detail :: "string \<Rightarrow> detail_page"
  listings :: "string \<Rightarrow> listing"
  front_goto :: "nat \<Rightarrow> bool"
  front_links :: "string \<Rightarrow> link list option"

section \<open>\<^verbatim>\<open>load_more_pages\<close> and \<^verbatim>\<open>download_workflow_via_clipboard\<close>\<close>

definition load_more_pages :: "listing_view \<Rightarrow> state \<Rightarrow> bool \<times> state" where
  "load_more_pages v st =
     (case load_more v of
        Visible \<Rightarrow> (True, emit [LoadMore] st)
      | _ \<Rightarrow> (False, st))"

definition copy_selectors :: "string list" where
  \<open>copy_selectors =
     [''div.cursor-pointer:has-text("Copy template to clipboard (JSON)")'',
      ''div:has-text("Copy template to clipboard (JSON)")'',
      ''button:has-text("Copy template to clipboard")'',
      ''[data-testid="copy-template"]'']\<close>

text \<open>
  The loop over the copy selectors: \<open>Some True\<close> when a control was clicked, \<open>Some False\<close>
  when none was found, \<open>None\<close> when a call raised.
\<close>

fun click_copy :: "detail_page \<Rightarrow> string list \<Rightarrow> bool option" where
  "click_copy d [] = Some False"
| "click_copy d (s # ss) =
     (case copy_button d s of
        Visible \<Rightarrow> Some True
      | Broken \<Rightarrow> None
      | _ \<Rightarrow> click_copy d ss)"

text \<open>
  The guarded block of the download, after the navigation was issued: the text to write,
  or \<open>None\<close> on each path that returns \<^verbatim>\<open>False\<close> (the handler of the block included).
\<close>

definition fetch_payload :: "'j world \<Rightarrow> detail_page \<Rightarrow> string option" where
  "fetch_payload W d =
     (if goto_raises d then None
      else if \<not> contains ''n8n.io'' (page_url d) then None
      else if use_button d \<noteq> Visible then None
      else if click_copy d copy_selectors \<noteq> Some True then None
      else (case clipboard d of
              None \<Rightarrow> None
            | Some t \<Rightarrow>
                if t = [] then None
                else (case json_loads W t of
                        None \<Rightarrow> None
                      | Some v \<Rightarrow> Some (json_dump W v))))"

definition download_workflow_via_clipboard ::
  "'j world \<Rightarrow> nat \<Rightarrow> workflow \<Rightarrow> state \<Rightarrow> bool outcome" where
  "download_workflow_via_clipboard W tab w st =
     (case mkdir_exist_ok (files st) (category w) of
        Inl e \<Rightarrow> Raised e st
      | Inr f \<Rightarrow>
          if file_exists f w then Returned True (st\<lparr>files := f\<rparr>)
          else
            (let st1 = emit [Goto tab (url w)] (st\<lparr>files := f\<rparr>)
             in case fetch_payload W (detail W (url w)) of
                  None \<Rightarrow> Returned False st1
                | Some t \<Rightarrow> Returned True (st1\<lparr>files := write_file f w t\<rparr>)))"

section \<open>\<^verbatim>\<open>download_batch_immediately\<close>\<close>

definition zero_stats :: cat_stats where
  "zero_stats = \<lparr>downloaded = 0, errors = 0, found = 0\<rparr>"

definition ensure_stats :: "string \<Rightarrow> state \<Rightarrow> state" where
  "ensure_stats cn st =
     (if category_stats st cn = None
      then st\<lparr>category_stats := (category_stats st)(cn \<mapsto> zero_stats)\<rparr>
      else st)"

definition update_stats :: "string \<Rightarrow> (cat_stats \<Rightarrow> cat_stats) \<Rightarrow> state \<Rightarrow> state" where
  "update_stats cn g st =
     (case category_stats st cn of
        None \<Rightarrow> st
      | Some c \<Rightarrow> st\<lparr>category_stats := (category_stats st)(cn \<mapsto> g c)\<rparr>)"

definition record_result :: "string \<Rightarrow> bool \<Rightarrow> state \<Rightarrow> state" where
  "record_result cn ok st =
     (if ok then
        update_stats cn (\<lambda>c. c\<lparr>downloaded := downloaded c + 1\<rparr>)
          (ensure_stats cn
             (st\<lparr>stats := (stats st)\<lparr>total_workflows_downloaded :=
                                      total_workflows_downloaded (stats st) + 1\<rparr>\<rparr>))
      else
        update_stats cn (\<lambda>c. c\<lparr>errors := errors c + 1\<rparr>)
          (ensure_stats cn
             (st\<lparr>stats := (stats st)\<lparr>total_errors := total_errors (stats st) + 1\<rparr>\<rparr>)))"

text \<open>
  The loop \<^verbatim>\<open>for i, workflow in enumerate(workflows)\<close>, from index \<open>i\<close> on, with
  \<open>b = batch_size\<close> tabs; an exception leaves the loop.
\<close>

fun download_items ::
  "'j world \<Rightarrow> string \<Rightarrow> nat \<Rightarrow> nat \<Rightarrow> workflow list \<Rightarrow> state \<Rightarrow> unit outcome" where
  "download_items W cn b i [] st = Returned () st"
| "download_items W cn b i (w # ws) st =
     (case download_workflow_via_clipboard W (i mod b) w (emit [Download (i mod b) w] st) of
        Raised e st' \<Rightarrow> Raised e st'
      | Returned ok st' \<Rightarrow> download_items W cn b (Suc i) ws (record_result cn ok st'))"

definition close_tabs :: "nat \<Rightarrow> state \<Rightarrow> state" where
  "close_tabs b st = emit (map CloseTab [0..<b]) st"

definition download_batch_immediately ::
  "'j world \<Rightarrow> workflow list \<Rightarrow> string \<Rightarrow> state \<Rightarrow> unit outcome" where
  "download_batch_immediately W ws cn st =
     (if ws = [] then Returned () st
      else
        (let b = min 3 (length ws);
             st1 = emit (Batch ws # map NewTab [0..<b]) st
         in case download_items W cn b 0 ws st1 of
              Raised e st2 \<Rightarrow> Raised e (close_tabs b st2)
            | Returned u st2 \<Rightarrow> Returned () (close_tabs b st2)))"


section \<open>\<^verbatim>\<open>scrape_category_workflows\<close>\<close>

definition WORKFLOWS_PER_PAGE :: nat where
  "WORKFLOWS_PER_PAGE = 30"

text \<open>A category or subcategory descriptor: the dictionary with name, slug, url, parent.\<close>

record category_info =
  c_name :: string
  c_slug :: string
  c_url :: string
  c_parent :: "string option"

text \<open>The local variables of the traversal (\<^verbatim>\<open>pages_loaded\<close> is passed on its own).\<close>

record locals =
  all_workflows :: "workflow list"
  processed_slugs :: "string set"
  pending_downloads :: "workflow list"

definition count_found :: "string \<Rightarrow> state \<Rightarrow> state" where
  "count_found cn st =
     update_stats cn (\<lambda>c. c\<lparr>found := found c + 1\<rparr>)
       (st\<lparr>stats := (stats st)\<lparr>total_workflows_found := total_workflows_found (stats st) + 1\<rparr>\<rparr>)"

text \<open>
  The loop \<^verbatim>\<open>for workflow in page_workflows\<close>, which leaves at once when the limit is
  reached.
\<close>

fun collect_new :: "string \<Rightarrow> workflow list \<Rightarrow> locals \<times> state \<Rightarrow> locals \<times> state" where
  "collect_new cn [] (L, st) = (L, st)"
| "collect_new cn (w # ws) (L, st) =
     (if slug w \<notin> processed_slugs L
         \<and> length (all_workflows L) < MAX_WORKFLOWS_PER_SUBCATEGORY
      then
        (let L' = L\<lparr>all_workflows := all_workflows L @ [w],
                     processed_slugs := insert (slug w) (processed_slugs L),
                     pending_downloads := pending_downloads L @ [w]\<rparr>;
             st' = count_found cn st
         in if length (all_workflows L') \<ge> MAX_WORKFLOWS_PER_SUBCATEGORY
            then (L', st')
            else collect_new cn ws (L', st'))
      else collect_new cn ws (L, st))"

text \<open>The immediate download once enough workflows are pending.\<close>

definition flush_if_due :: "'j world \<Rightarrow> string \<Rightarrow> locals \<Rightarrow> state \<Rightarrow> locals outcome" where
  "flush_if_due W cn L st =
     (if length (pending_downloads L) \<ge> DOWNLOAD_BATCH_SIZE then
        (case download_batch_immediately W (pending_downloads L) cn st of
           Raised e st' \<Rightarrow> Raised e st'
         | Returned u st' \<Rightarrow> Returned (L\<lparr>pending_downloads := []\<rparr>) st')
      else Returned L st)"

text \<open>
  The loop \<^verbatim>\<open>while True\<close>, entered with \<^verbatim>\<open>pages_loaded = n\<close>; it returns the final
  \<^verbatim>\<open>pages_loaded\<close> with the locals.
\<close>

function pagination_loop ::
  "'j world \<Rightarrow> string \<Rightarrow> listing \<Rightarrow> nat \<Rightarrow> locals \<Rightarrow> state \<Rightarrow> (nat \<times> locals) outcome" where
  "pagination_loop W cn site n L st =
     (case collect_new cn
             (extract_workflow_links (urljoin W) (content (views site (Suc n))) cn) (L, st) of
        (L1, st1) \<Rightarrow>
          if length (all_workflows L1) \<ge> MAX_WORKFLOWS_PER_SUBCATEGORY
          then Returned (Suc n, L1) st1
          else
            (case flush_if_due W cn L1 st1 of
               Raised e st2 \<Rightarrow> Raised e st2
             | Returned L2 st2 \<Rightarrow>
                 (case load_more_pages (views site (Suc n)) st2 of
                    (again, st3) \<Rightarrow>
                      if \<not> again then Returned (Suc n, L2) st3
                      else if Suc n > 30 then Returned (Suc n, L2) st3
                      else pagination_loop W cn site (Suc n) L2 st3)))"
  by pat_completeness auto
termination
  by (relation "measure (\<lambda>(W, cn, site, n, L, st). 31 - n)") auto

declare pagination_loop.simps [simp del]

definition category_url :: "category_info \<Rightarrow> string" where
  "category_url c = c_url c @ ''?count='' @ str_nat WORKFLOWS_PER_PAGE"

definition no_locals :: locals where
  "no_locals = \<lparr>all_workflows = [], processed_slugs = {}, pending_downloads = []\<rparr>"

text \<open>The guarded block of \<^verbatim>\<open>scrape_category_workflows\<close>.\<close>

definition scrape_category_body ::
  "'j world \<Rightarrow> category_info \<Rightarrow> state \<Rightarrow> (nat \<times> locals) outcome" where
  "scrape_category_body W c st =
     (let st1 = emit [Visit (category_url c)] st
      in if \<not> goto_ok (listings W (category_url c)) then Raised PlaywrightError st1
         else
           (case pagination_loop W (c_name c) (listings W (category_url c)) 0 no_locals st1 of
              Raised e st2 \<Rightarrow> Raised e st2
            | Returned (n, L) st2 \<Rightarrow>
                if pending_downloads L \<noteq> [] then
                  (case download_batch_immediately W (pending_downloads L) (c_name c) st2 of
                     Raised e st3 \<Rightarrow> Raised e st3
                   | Returned u st3 \<Rightarrow> Returned (n, L) st3)
                else Returned (n, L) st2))"

definition state_of :: "'a outcome \<Rightarrow> state" where
  "state_of r = (case r of Raised e st \<Rightarrow> st | Returned x st \<Rightarrow> st)"


section \<open>\<^verbatim>\<open>discover_main_categories\<close> and \<^verbatim>\<open>discover_subcategories\<close>\<close>


definition known_category :: "string \<Rightarrow> string \<Rightarrow> category_info" where
  "known_category n s =
     \<lparr>c_name = n, c_slug = s,
      c_url = ''https://n8n.io/workflows/categories/'' @ s @ ''/'',
      c_parent = None\<rparr>"












section \<open>\<^verbatim>\<open>scrape_all_categories_comprehensively\<close>\<close>



definition count_subcategories :: "nat \<Rightarrow> state \<Rightarrow> state" where
  "count_subcategories k st =
     st\<lparr>stats := (stats st)\<lparr>subcategories_explored := subcategories_explored (stats st) + k\<rparr>\<rparr>"



section \<open>Reading the trace and the download directory\<close>

text \<open>The downloads started (tab, item) and the tabs opened, in order.\<close>

primrec downloads_of :: "event list \<Rightarrow> (nat \<times> workflow) list" where
  "downloads_of [] = []"
| "downloads_of (e # es) =
     (case e of Download t w \<Rightarrow> (t, w) # downloads_of es | _ \<Rightarrow> downloads_of es)"

primrec tabs_opened :: "event list \<Rightarrow> nat list" where
  "tabs_opened [] = []"
| "tabs_opened (e # es) =
     (case e of NewTab t \<Rightarrow> t # tabs_opened es | _ \<Rightarrow> tabs_opened es)"

text \<open>Whether the path \<^verbatim>\<open>download_dir / c\<close> is a regular file.\<close>

definition is_regular_file :: "fs \<Rightarrow> string \<Rightarrow> bool" where
  "is_regular_file f c = (case f c of Some (File t) \<Rightarrow> True | _ \<Rightarrow> False)"

text \<open>The value a call returned, if it returned.\<close>

definition returned :: "'a outcome \<Rightarrow> 'a option" where
  "returned r = (case r of Raised e st \<Rightarrow> None | Returned x st \<Rightarrow> Some x)"

text \<open>The batches handed to \<^verbatim>\<open>download_batch_immediately\<close>, and the number of final
  reports printed.\<close>

primrec batches_of :: "event list \<Rightarrow> workflow list list" where
  "batches_of [] = []"
| "batches_of (e # es) =
     (case e of Batch ws \<Rightarrow> ws # batches_of es | _ \<Rightarrow> batches_of es)"

primrec reports :: "event list \<Rightarrow> nat" where
  "reports [] = 0"
| "reports (e # es) = (case e of PrintStatistics \<Rightarrow> Suc (reports es) | _ \<Rightarrow> reports es)"

text \<open>
  The invariant of the accumulated list: pairwise distinct slugs, all of them recorded in
  \<^verbatim>\<open>processed_slugs\<close>, and no more than the limit.
\<close>

definition traversal_invariant :: "locals \<Rightarrow> bool" where
  "traversal_invariant L =
     (distinct (map slug (all_workflows L))
      \<and> slug ` set (all_workflows L) \<subseteq> processed_slugs L
      \<and> length (all_workflows L) \<le> MAX_WORKFLOWS_PER_SUBCATEGORY)"

section \<open>Example inputs\<close>

text \<open>
  \<^verbatim>\<open>urljoin\<close> on the links of the examples: a full URL stays as it is, an absolute path
  is put behind the host of the listing.
\<close>

definition site_urljoin :: "string \<Rightarrow> string \<Rightarrow> string" where
  "site_urljoin b h = (if prefix ''http'' h then h else ''https://n8n.io'' @ h)"

definition free_label :: "string \<Rightarrow> string option" where
  \<open>free_label = [''span:has-text("Free")'' \<mapsto> ''Free'']\<close>

text \<open>An entry with three tooltip-bearing nodes and the indicator \<^verbatim>\<open>+2\<close>.\<close>

definition card_scenario_a :: card where
  "card_scenario_a =
     \<lparr>href = Some ''/workflows/2300-notify-on-deal/'',
      sub_text = free_label,
      ul = Some \<lparr>visible_items = 3, plus_texts = ['' +2 '']\<rparr>,
      inner_text = ''Notify on deal +2 Free''\<rparr>"

text \<open>An entry with five tooltip-bearing nodes, the indicator \<^verbatim>\<open>+3\<close>, a Free label and
  no price.\<close>

definition card_scenario_b :: card where
  "card_scenario_b =
     \<lparr>href = Some ''/workflows/2301-sync-crm-leads/'',
      sub_text = free_label(title_selector \<mapsto> '' Sync CRM leads ''),
      ul = Some \<lparr>visible_items = 5, plus_texts = [''+3'']\<rparr>,
      inner_text = ''Sync CRM leads +3 Free''\<rparr>"

text \<open>A second link to the same workflow, without a heading of its own.\<close>

definition card_twin :: card where
  "card_twin = card_scenario_b\<lparr>sub_text := free_label\<rparr>"

definition page_twins :: page where
  "page_twins = [hd workflow_selectors \<mapsto> [Card card_scenario_b, Card card_twin]]"

text \<open>A node list without tooltips or indicator, under a text that holds \<^verbatim>\<open>+7\<close>.\<close>

definition card_bare_list :: card where
  "card_bare_list =
     \<lparr>href = Some ''/workflows/1201-sync-apps'', sub_text = Map.empty,
      ul = Some \<lparr>visible_items = 0, plus_texts = []\<rparr>,
      inner_text = ''Sync +7 apps''\<rparr>"

text \<open>Three nodes and the indicator \<^verbatim>\<open>+2\<close>, under a title that holds \<^verbatim>\<open>+50\<close>.\<close>

definition card_title_plus :: card where
  "card_title_plus =
     \<lparr>href = Some ''/workflows/1202-top-tips'', sub_text = Map.empty,
      ul = Some \<lparr>visible_items = 3, plus_texts = [''+2'']\<rparr>,
      inner_text = ''Top +50 tips +2''\<rparr>"

text \<open>Seven accepted items of one category, as a traversal would hand them on.\<close>

definition example_item :: "nat \<Rightarrow> workflow" where
  "example_item k =
     \<lparr>title = ''Flow '' @ str_nat k,
      slug = ''240'' @ str_nat k @ ''-flow'',
      url = ''https://n8n.io/workflows/240'' @ str_nat k @ ''-flow/'',
      nodes = 8, category = ''Sales'', has_price = False, is_free = True\<rparr>"


text \<open>
  A detail page on which every step works, and a site on which the navigation to the
  item of index 3 raises.
\<close>

definition good_detail :: "string \<Rightarrow> detail_page" where
  \<open>good_detail u =
     \<lparr>goto_raises = False, page_url = u, use_button = Visible,
      copy_button = (\<lambda>s. if s = copy_selectors ! 1 then Visible else Missing),
      clipboard = Some ''{"nodes": []}''\<rparr>\<close>

definition detail_d :: "string \<Rightarrow> detail_page" where
  "detail_d u =
     (if u = url (example_item 3) then (good_detail u)\<lparr>goto_raises := True\<rparr>
      else good_detail u)"

definition nothing_listed :: listing_view where
  "nothing_listed = \<lparr>content = (\<lambda>s. Some []), load_more = Missing\<rparr>"

definition quiet_listing :: listing where
  "quiet_listing = \<lparr>goto_ok = True, views = (\<lambda>k. nothing_listed)\<rparr>"

text \<open>A stand-in for the \<^verbatim>\<open>json\<close> module: a text that opens an object parses, and is
  written back as it was.\<close>

definition world_d :: "string world" where
  "world_d =
     \<lparr>urljoin = site_urljoin,
      json_loads = (\<lambda>t. if prefix ''{'' t then Some t else None),
      json_dump = (\<lambda>v. v),
      detail = detail_d,
      listings = (\<lambda>u. quiet_listing),
      front_goto = (\<lambda>k. False),
      front_links = (\<lambda>s. Some [])\<rparr>"

definition no_files :: fs where
  "no_files = Map.empty"


definition fresh_state :: state where
  "fresh_state =
     \<lparr>files = no_files,
      stats = \<lparr>categories_explored = 0, subcategories_explored = 0,
               total_workflows_found = 0, total_workflows_downloaded = 0,
               total_errors = 0\<rparr>,
      category_stats = Map.empty,
      trace = []\<rparr>"




text \<open>A listing whose pages hold no entry and whose load-more control never goes away.\<close>

definition still_more :: listing_view where
  "still_more = \<lparr>content = (\<lambda>s. Some []), load_more = Visible\<rparr>"

definition endless_listing :: listing where
  "endless_listing = \<lparr>goto_ok = True, views = (\<lambda>k. still_more)\<rparr>"

definition world_endless :: "string world" where
  "world_endless = world_d\<lparr>listings := (\<lambda>u. endless_listing)\<rparr>"

text \<open>The category used in the examples.\<close>

definition sales :: category_info where
  "sales = known_category ''Sales'' ''sales''"

text \<open>Sixteen accepted entries on one page, and the items extracted from them.\<close>

definition listed_card :: "nat \<Rightarrow> card" where
  "listed_card k =
     \<lparr>href = Some (''/workflows/'' @ str_nat k @ ''-f''),
      sub_text = free_label,
      ul = Some \<lparr>visible_items = 6, plus_texts = []\<rparr>,
      inner_text = ''Free''\<rparr>"

definition listed_item :: "nat \<Rightarrow> workflow" where
  "listed_item k =
     \<lparr>title = ''Unknown Title'', slug = str_nat k @ ''-f'',
      url = ''https://n8n.io/workflows/'' @ str_nat k @ ''-f'',
      nodes = 6, category = ''Sales'', has_price = False, is_free = True\<rparr>"

definition page_of_16 :: page where
  "page_of_16 = [hd workflow_selectors \<mapsto> map (\<lambda>k. Card (listed_card k)) [10..<26]]"

definition items_16 :: "workflow list" where
  "items_16 = map listed_item [10..<26]"

text \<open>A listing of that one page, without a load-more control.\<close>

definition single_page :: listing_view where
  "single_page = \<lparr>content = page_of_16, load_more = Missing\<rparr>"

definition world_16 :: "string world" where
  "world_16 = world_d\<lparr>listings := (\<lambda>u. \<lparr>goto_ok = True, views = (\<lambda>k. single_page)\<rparr>)\<rparr>"


section \<open>Properties of the page extractor\<close>

lemmas text_simps = is_digit_def is_space_def py_int_def strip_def lower_def lower_char_def

lemmas card_simps = workflow_data_def extract_title_def extract_slug_def match_slug_at_def
  nodes_count_def structural_count_def overflow_only_def text_pattern_count_def
  has_currency_def price_selectors_def free_selectors_def title_selector_def
  is_workflow_href_def accepted_def MIN_NODES_def BASE_URL_def

lemmas example_simps = site_urljoin_def free_label_def card_scenario_a_def card_scenario_b_def
  card_twin_def page_twins_def card_bare_list_def card_title_plus_def

lemma accepted_iff: "accepted w = (MIN_NODES \<le> nodes w \<and> \<not> has_price w \<and> is_free w)"
  by (auto simp: accepted_def MIN_NODES_def)

lemma process_element_accepted:
  "list_all accepted ws \<Longrightarrow> list_all accepted (process_element uj cat ws e)"
  by (cases e) (simp_all add: process_element_def Let_def)

lemma foldl_process_accepted:
  "list_all accepted ws \<Longrightarrow> list_all accepted (foldl (process_element uj cat) ws es)"
  by (induction es arbitrary: ws) (simp_all add: process_element_accepted)

lemma extract_selectors_accepted:
  "list_all accepted ws \<Longrightarrow> list_all accepted (extract_selectors uj cat p ss ws)"
  by (induction ss arbitrary: ws) (simp_all add: foldl_process_accepted split: option.splits)

lemma extract_accepted: "list_all accepted (extract_workflow_links uj p cat)"
  unfolding extract_workflow_links_def by (rule extract_selectors_accepted) simp







lemma page_twins_extract:
  "extract_workflow_links site_urljoin page_twins ''Sales'' =
     [\<lparr>title = ''Sync CRM leads'', slug = ''2301-sync-crm-leads'',
       url = ''https://n8n.io/workflows/2301-sync-crm-leads/'', nodes = 8,
       category = ''Sales'', has_price = False, is_free = True\<rparr>,
      \<lparr>title = ''Unknown Title'', slug = ''2301-sync-crm-leads'',
       url = ''https://n8n.io/workflows/2301-sync-crm-leads/'', nodes = 8,
       category = ''Sales'', has_price = False, is_free = True\<rparr>]"
  by (simp add: extract_workflow_links_def workflow_selectors_def process_element_def
      example_simps card_simps text_simps)

text \<open>
  C1. Every item that \<^verbatim>\<open>extract_workflow_links\<close> returns has at least \<^verbatim>\<open>MIN_NODES\<close> nodes,
  no price and the free flag; and for an entry whose link is an individual workflow,
  processed after any elements \<open>es\<close> of the same call, the record built for it is in the
  list after its turn exactly when its node count is at least \<^verbatim>\<open>MIN_NODES\<close>, it has no
  price and it is free. So an entry with node count 0, with a price, or without the free
  flag (the case with neither marker included) is never emitted.
\<close>

theorem accepted_iff_predicate:
  "(\<forall>w \<in> set (extract_workflow_links uj p cat).
       MIN_NODES \<le> nodes w \<and> \<not> has_price w \<and> is_free w)
   \<and> (is_workflow_href (href c) \<longrightarrow>
        (let ws = foldl (process_element uj cat) [] es;
             w = workflow_data uj cat ws c
         in (w \<in> set (process_element uj cat ws (Card c)))
            = (MIN_NODES \<le> nodes w \<and> \<not> has_price w \<and> is_free w)))"
proof (intro conjI impI)
  show "\<forall>w \<in> set (extract_workflow_links uj p cat).
       MIN_NODES \<le> nodes w \<and> \<not> has_price w \<and> is_free w"
    using extract_accepted [of uj p cat] by (simp add: list_all_iff accepted_iff)
next
  assume h: "is_workflow_href (href c)"
  define ws where "ws = foldl (process_element uj cat) [] es"
  have inv: "list_all accepted ws"
    unfolding ws_def by (rule foldl_process_accepted) simp
  define w where "w = workflow_data uj cat ws c"
  have "(w \<in> set (process_element uj cat ws (Card c))) = accepted w"
  proof (cases "accepted w")
    case True
    then show ?thesis using h by (auto simp: process_element_def Let_def w_def)
  next
    case False
    with inv have "w \<notin> set ws" by (auto simp: list_all_iff)
    with False show ?thesis using h by (simp add: process_element_def Let_def w_def)
  qed
  then show "let ws = foldl (process_element uj cat) [] es;
             w = workflow_data uj cat ws c
         in (w \<in> set (process_element uj cat ws (Card c)))
            = (MIN_NODES \<le> nodes w \<and> \<not> has_price w \<and> is_free w)"
    by (simp add: Let_def ws_def w_def accepted_iff)
qed

theorem accepted_iff_predicate_witness:
  "is_workflow_href (href card_scenario_b)
   \<and> workflow_data site_urljoin ''Sales'' [] card_scenario_b
       \<in> set (process_element site_urljoin ''Sales'' [] (Card card_scenario_b))
   \<and> nodes (workflow_data site_urljoin ''Sales'' [] card_scenario_b) = 8
   \<and> is_workflow_href (href card_scenario_a)
   \<and> workflow_data site_urljoin ''Sales'' [] card_scenario_a
       \<notin> set (process_element site_urljoin ''Sales'' [] (Card card_scenario_a))
   \<and> nodes (workflow_data site_urljoin ''Sales'' [] card_scenario_a) = 5
   \<and> length (extract_workflow_links site_urljoin page_twins ''Sales'') = 2"
proof -
  have a: "length (extract_workflow_links site_urljoin page_twins ''Sales'') = 2"
    by (simp add: page_twins_extract)
  have b: "is_workflow_href (href card_scenario_b)
     \<and> workflow_data site_urljoin ''Sales'' [] card_scenario_b
         \<in> set (process_element site_urljoin ''Sales'' [] (Card card_scenario_b))
     \<and> nodes (workflow_data site_urljoin ''Sales'' [] card_scenario_b) = 8"
    using accepted_iff_predicate
      [where c = card_scenario_b and es = "[]" and uj = site_urljoin
        and cat = "''Sales''", THEN conjunct2]
    by (simp add: process_element_def example_simps card_simps text_simps)
  have c: "is_workflow_href (href card_scenario_a)
     \<and> workflow_data site_urljoin ''Sales'' [] card_scenario_a
         \<notin> set (process_element site_urljoin ''Sales'' [] (Card card_scenario_a))
     \<and> nodes (workflow_data site_urljoin ''Sales'' [] card_scenario_a) = 5"
    using accepted_iff_predicate
      [where c = card_scenario_a and es = "[]" and uj = site_urljoin
        and cat = "''Sales''", THEN conjunct2]
    by (simp add: process_element_def example_simps card_simps text_simps)
  from a b c show ?thesis by blast
qed







section \<open>Properties of the download orchestrator\<close>

lemma file_exists_mkdir:
  "file_exists (files st) w \<Longrightarrow> mkdir_exist_ok (files st) (category w) = Inr (files st)"
  by (auto simp: file_exists_def dir_entries_def mkdir_exist_ok_def split: option.splits node.splits)

lemma download_present: "file_exists (files st) w \<Longrightarrow> download_workflow_via_clipboard W tab w st = Returned True st"
  by (simp add: download_workflow_via_clipboard_def file_exists_mkdir)

lemma mkdir_cases:
  "mkdir_exist_ok f c = Inr f' \<Longrightarrow> f' = f \<or> (f c = None \<and> f' = f(c \<mapsto> Dir Map.empty))"
  by (auto simp: mkdir_exist_ok_def split: option.splits node.splits)

lemma mkdir_entries:
  "mkdir_exist_ok f c = Inr f' \<Longrightarrow> dir_entries f' = dir_entries f"
proof -
  assume "mkdir_exist_ok f c = Inr f'"
  then have "f' = f \<or> (f c = None \<and> f' = f(c \<mapsto> Dir Map.empty))" by (rule mkdir_cases)
  then show ?thesis by (auto simp: dir_entries_def fun_eq_iff)
qed

lemma mkdir_raises:
  "(mkdir_exist_ok f c = Inl e) = (is_regular_file f c \<and> e = FileExistsError)"
  by (auto simp: mkdir_exist_ok_def is_regular_file_def split: option.splits node.splits)

lemma mkdir_regular:
  "mkdir_exist_ok f c = Inr f' \<Longrightarrow> is_regular_file f' x = is_regular_file f x"
proof -
  assume "mkdir_exist_ok f c = Inr f'"
  then have "f' = f \<or> (f c = None \<and> f' = f(c \<mapsto> Dir Map.empty))" by (rule mkdir_cases)
  then show ?thesis
    by (elim disjE conjE; cases "x = c"; simp add: is_regular_file_def)
qed

lemma file_exists_mkdir_eq:
  "mkdir_exist_ok f c = Inr f' \<Longrightarrow> file_exists f' x = file_exists f x"
  by (simp add: file_exists_def mkdir_entries)

lemma file_exists_write:
  "file_exists f x \<Longrightarrow> file_exists (write_file f w t) x"
  by (auto simp: file_exists_def write_file_def dir_entries_def)

lemma regular_write: "is_regular_file (write_file f w t) c = (is_regular_file f c \<and> c \<noteq> category w)"
  by (auto simp: write_file_def is_regular_file_def)

lemma download_cases:
  "download_workflow_via_clipboard W tab w st = r \<Longrightarrow>
     (is_regular_file (files st) (category w) \<and> r = Raised FileExistsError st)
   \<or> (\<not> is_regular_file (files st) (category w) \<and> file_exists (files st) w \<and> r = Returned True st)
   \<or> (\<not> is_regular_file (files st) (category w) \<and> \<not> file_exists (files st) w \<and>
       (\<exists>f ok. mkdir_exist_ok (files st) (category w) = Inr f \<and>
          r = Returned ok (emit [Goto tab (url w)] (st\<lparr>files := if ok then write_file f w (the (fetch_payload W (detail W (url w)))) else f\<rparr>))
          \<and> ok = (fetch_payload W (detail W (url w)) \<noteq> None)))"
proof (cases "mkdir_exist_ok (files st) (category w)")
  case (Inl e)
  assume "download_workflow_via_clipboard W tab w st = r"
  with Inl show ?thesis
    using mkdir_raises[of "files st" "category w" e]
    by (simp add: download_workflow_via_clipboard_def)
next
  case (Inr f)
  assume d: "download_workflow_via_clipboard W tab w st = r"
  have nr: "\<not> is_regular_file (files st) (category w)"
    using Inr mkdir_raises[of "files st" "category w"] by auto
  show ?thesis
  proof (cases "file_exists (files st) w")
    case True
    with d nr show ?thesis by (simp add: download_present)
  next
    case False
    then have "\<not> file_exists f w" using Inr by (simp add: file_exists_mkdir_eq)
    with d Inr nr False show ?thesis
      by (auto simp: download_workflow_via_clipboard_def Let_def emit_def split: option.splits)
  qed
qed

lemma downloads_of_append: "downloads_of (xs @ ys) = downloads_of xs @ downloads_of ys"
  by (induction xs) (simp_all split: event.splits)

lemma tabs_opened_append: "tabs_opened (xs @ ys) = tabs_opened xs @ tabs_opened ys"
  by (induction xs) (simp_all split: event.splits)





lemma record_result_files [simp]: "files (record_result cn ok st) = files st"
  by (simp add: record_result_def update_stats_def ensure_stats_def split: option.splits)

lemma record_result_trace [simp]: "trace (record_result cn ok st) = trace st"
  by (simp add: record_result_def update_stats_def ensure_stats_def split: option.splits)

lemma emit_files [simp]: "files (emit es st) = files st"
  by (simp add: emit_def)

lemma emit_trace [simp]: "trace (emit es st) = trace st @ es"
  by (simp add: emit_def)

lemma download_returned:
  assumes "download_workflow_via_clipboard W tab w st = Returned ok st'"
  shows "is_regular_file (files st') c = is_regular_file (files st) c"
    and "file_exists (files st) x \<Longrightarrow> file_exists (files st') x"
    and "trace st' = trace st \<or> (trace st' = trace st @ [Goto tab (url w)] \<and> \<not> file_exists (files st) w)"
    and "\<not> is_regular_file (files st) (category w)"
proof -
  from download_cases[OF assms]
  consider (ex) "\<not> is_regular_file (files st) (category w)" "file_exists (files st) w" "st' = st"
    | (nav) f where "\<not> is_regular_file (files st) (category w)" "\<not> file_exists (files st) w"
        "mkdir_exist_ok (files st) (category w) = Inr f"
        "st' = emit [Goto tab (url w)] (st\<lparr>files := if ok then write_file f w (the (fetch_payload W (detail W (url w)))) else f\<rparr>)"
    by auto
  note cs = this
  show "\<not> is_regular_file (files st) (category w)" by (cases rule: cs) auto
  show "trace st' = trace st \<or> (trace st' = trace st @ [Goto tab (url w)] \<and> \<not> file_exists (files st) w)"
    by (cases rule: cs) auto
  show "is_regular_file (files st') c = is_regular_file (files st) c"
  proof (cases rule: cs)
    case ex
    then show ?thesis by simp
  next
    case (nav f)
    then show ?thesis
      using mkdir_regular[of "files st" "category w" f c]
      by (auto simp: regular_write)
  qed
  show "file_exists (files st) x \<Longrightarrow> file_exists (files st') x"
  proof (cases rule: cs)
    case ex
    assume "file_exists (files st) x"
    with ex show ?thesis by simp
  next
    case (nav f)
    assume "file_exists (files st) x"
    with nav show ?thesis
      using file_exists_mkdir_eq[of "files st" "category w" f x]
      by (auto simp: file_exists_write)
  qed
qed

lemma download_trace_projections:
  assumes "download_workflow_via_clipboard W tab w st = Returned ok st'"
  shows "downloads_of (trace st') = downloads_of (trace st)"
    and "tabs_opened (trace st') = tabs_opened (trace st)"
  using download_returned(3)[OF assms]
  by (auto simp: downloads_of_append tabs_opened_append)

lemma download_items_round_robin:
  "(\<forall>w \<in> set ws. \<not> is_regular_file (files st) (category w)) \<Longrightarrow>
   \<exists>st'. download_items W cn b i ws st = Returned () st'
     \<and> downloads_of (trace st')
         = downloads_of (trace st) @ map (\<lambda>k. ((i + k) mod b, ws ! k)) [0..<length ws]
     \<and> tabs_opened (trace st') = tabs_opened (trace st)"
proof (induction ws arbitrary: i st)
  case Nil
  show ?case by simp
next
  case (Cons w ws)
  let ?st0 = "emit [Download (i mod b) w] st"
  have nr: "\<not> is_regular_file (files ?st0) (category w)" using Cons.prems by simp
  obtain ok st1 where d: "download_workflow_via_clipboard W (i mod b) w ?st0 = Returned ok st1"
    using download_cases[OF refl, where W = W and tab = "i mod b" and w = w and st = ?st0] nr by auto
  let ?st2 = "record_result cn ok st1"
  have "\<forall>x \<in> set ws. \<not> is_regular_file (files ?st2) (category x)"
    using Cons.prems download_returned(1)[OF d] by simp
  from Cons.IH[OF this, where i = "Suc i"] obtain st' where
    r: "download_items W cn b (Suc i) ws ?st2 = Returned () st'"
    and t: "downloads_of (trace st')
         = downloads_of (trace ?st2) @ map (\<lambda>k. ((Suc i + k) mod b, ws ! k)) [0..<length ws]"
    and o: "tabs_opened (trace st') = tabs_opened (trace ?st2)"
    by blast
  have t0: "downloads_of (trace ?st2) = downloads_of (trace st) @ [(i mod b, w)]"
    using download_trace_projections(1)[OF d] by (simp add: downloads_of_append)
  have o0: "tabs_opened (trace ?st2) = tabs_opened (trace st)"
    using download_trace_projections(2)[OF d] by (simp add: tabs_opened_append)
  have m: "map (\<lambda>k. ((i + k) mod b, (w # ws) ! k)) [0..<length (w # ws)]
        = (i mod b, w) # map (\<lambda>k. ((Suc i + k) mod b, ws ! k)) [0..<length ws]"
    by (simp add: map_upt_Suc del: upt_Suc)
  show ?case using d r t o t0 o0 m by simp
qed



lemma state_of_simps [simp]: "state_of (Raised e st) = st" "state_of (Returned x st) = st"
  by (simp_all add: state_of_def)














section \<open>Properties of the traversal of one category\<close>

lemma batches_of_append: "batches_of (xs @ ys) = batches_of xs @ batches_of ys"
  by (induction xs) (simp_all split: event.splits)

lemma reports_append: "reports (xs @ ys) = reports xs + reports ys"
  by (induction xs) (simp_all split: event.splits)

lemma batches_of_NewTab: "batches_of (map NewTab ts) = []"
  by (induction ts) simp_all

lemma batches_of_CloseTab: "batches_of (map CloseTab ts) = []"
  by (induction ts) simp_all

lemma reports_NewTab: "reports (map NewTab ts) = 0"
  by (induction ts) simp_all

lemma reports_CloseTab: "reports (map CloseTab ts) = 0"
  by (induction ts) simp_all

lemma download_trace_cases:
  "trace (state_of (download_workflow_via_clipboard W tab w st)) = trace st
   \<or> trace (state_of (download_workflow_via_clipboard W tab w st)) = trace st @ [Goto tab (url w)]"
  using download_cases[OF refl, where W = W and tab = tab and w = w and st = st]
  by auto

lemma download_items_batches:
  "batches_of (trace (state_of (download_items W cn b i ws st))) = batches_of (trace st)
   \<and> reports (trace (state_of (download_items W cn b i ws st))) = reports (trace st)"
proof (induction ws arbitrary: i st)
  case Nil
  show ?case by simp
next
  case (Cons w ws)
  let ?st0 = "emit [Download (i mod b) w] st"
  let ?d = "download_workflow_via_clipboard W (i mod b) w ?st0"
  have p: "batches_of (trace (state_of ?d)) = batches_of (trace st)
      \<and> reports (trace (state_of ?d)) = reports (trace st)"
    using download_trace_cases[of W "i mod b" w ?st0]
    by (auto simp: batches_of_append reports_append)
  show ?case
  proof (cases ?d)
    case (Raised e st1)
    with p show ?thesis by simp
  next
    case (Returned ok st1)
    with p Cons.IH[of "Suc i" "record_result cn ok st1"] show ?thesis by simp
  qed
qed

lemma download_batch_batches:
  "batches_of (trace (state_of (download_batch_immediately W ws cn st)))
     = batches_of (trace st) @ (if ws = [] then [] else [ws])
   \<and> reports (trace (state_of (download_batch_immediately W ws cn st))) = reports (trace st)"
proof (cases "ws = []")
  case True
  then show ?thesis by (simp add: download_batch_immediately_def)
next
  case False
  let ?b = "min 3 (length ws)"
  let ?st1 = "emit (Batch ws # map NewTab [0..<?b]) st"
  have "state_of (download_batch_immediately W ws cn st)
      = close_tabs ?b (state_of (download_items W cn ?b 0 ws ?st1))"
    using False by (simp add: download_batch_immediately_def Let_def split: outcome.splits)
  then show ?thesis
    using False download_items_batches[of W cn ?b 0 ws ?st1]
    by (simp add: close_tabs_def batches_of_append reports_append batches_of_NewTab
        batches_of_CloseTab reports_NewTab reports_CloseTab)
qed

lemma count_found_trace [simp]: "trace (count_found cn st) = trace st"
  by (simp add: count_found_def update_stats_def split: option.splits)


lemma collect_new_invariant:
  "traversal_invariant L \<Longrightarrow> traversal_invariant (fst (collect_new cn ws (L, st)))"
proof (induction ws arbitrary: L st)
  case Nil
  then show ?case by simp
next
  case (Cons w ws)
  show ?case
  proof (cases "slug w \<notin> processed_slugs L
         \<and> length (all_workflows L) < MAX_WORKFLOWS_PER_SUBCATEGORY")
    case False
    then show ?thesis using Cons.IH[OF Cons.prems] by auto
  next
    case True
    let ?L1 = "L\<lparr>all_workflows := all_workflows L @ [w],
                     processed_slugs := insert (slug w) (processed_slugs L),
                     pending_downloads := pending_downloads L @ [w]\<rparr>"
    have inv1: "traversal_invariant ?L1"
      using True Cons.prems by (auto simp: traversal_invariant_def)
    show ?thesis
    proof (cases "length (all_workflows ?L1) \<ge> MAX_WORKFLOWS_PER_SUBCATEGORY")
      case True
      with \<open>slug w \<notin> processed_slugs L
         \<and> length (all_workflows L) < MAX_WORKFLOWS_PER_SUBCATEGORY\<close> inv1
      show ?thesis by (simp add: Let_def)
    next
      case False
      with True Cons.IH[OF inv1, of "count_found cn st"] show ?thesis by (simp add: Let_def)
    qed
  qed
qed

lemma flush_if_due_returned:
  assumes "flush_if_due W cn L st = Returned L2 st2"
  shows "all_workflows L2 = all_workflows L"
    and "processed_slugs L2 = processed_slugs L"
    and "reports (trace st2) = reports (trace st)"
    and "(length (pending_downloads L) < DOWNLOAD_BATCH_SIZE \<and> L2 = L
            \<and> batches_of (trace st2) = batches_of (trace st))
         \<or> (DOWNLOAD_BATCH_SIZE \<le> length (pending_downloads L) \<and> pending_downloads L2 = []
            \<and> batches_of (trace st2) = batches_of (trace st) @ [pending_downloads L])"
proof -
  show "all_workflows L2 = all_workflows L" "processed_slugs L2 = processed_slugs L"
    using assms by (auto simp: flush_if_due_def split: if_splits outcome.splits)
  show "reports (trace st2) = reports (trace st)"
    using assms download_batch_batches[of W "pending_downloads L" cn st]
    by (auto simp: flush_if_due_def split: if_splits outcome.splits)
  show "(length (pending_downloads L) < DOWNLOAD_BATCH_SIZE \<and> L2 = L
            \<and> batches_of (trace st2) = batches_of (trace st))
         \<or> (DOWNLOAD_BATCH_SIZE \<le> length (pending_downloads L) \<and> pending_downloads L2 = []
            \<and> batches_of (trace st2) = batches_of (trace st) @ [pending_downloads L])"
    using assms download_batch_batches[of W "pending_downloads L" cn st]
    by (auto simp: flush_if_due_def DOWNLOAD_BATCH_SIZE_def split: if_splits outcome.splits)
qed



lemma pagination_loop_step:
  assumes "pagination_loop W cn site n L st = r"
  obtains
    (limit) L1 st1 where
      "collect_new cn (extract_workflow_links (urljoin W) (content (views site (Suc n))) cn) (L, st) = (L1, st1)"
      "length (all_workflows L1) \<ge> MAX_WORKFLOWS_PER_SUBCATEGORY" "r = Returned (Suc n, L1) st1"
  | (raised) L1 st1 e st2 where
      "collect_new cn (extract_workflow_links (urljoin W) (content (views site (Suc n))) cn) (L, st) = (L1, st1)"
      "length (all_workflows L1) < MAX_WORKFLOWS_PER_SUBCATEGORY"
      "flush_if_due W cn L1 st1 = Raised e st2" "r = Raised e st2"
  | (stop) L1 st1 L2 st2 again st3 where
      "collect_new cn (extract_workflow_links (urljoin W) (content (views site (Suc n))) cn) (L, st) = (L1, st1)"
      "length (all_workflows L1) < MAX_WORKFLOWS_PER_SUBCATEGORY"
      "flush_if_due W cn L1 st1 = Returned L2 st2"
      "load_more_pages (views site (Suc n)) st2 = (again, st3)"
      "\<not> again \<or> Suc n > 30" "r = Returned (Suc n, L2) st3"
  | (continue) L1 st1 L2 st2 st3 where
      "collect_new cn (extract_workflow_links (urljoin W) (content (views site (Suc n))) cn) (L, st) = (L1, st1)"
      "length (all_workflows L1) < MAX_WORKFLOWS_PER_SUBCATEGORY"
      "flush_if_due W cn L1 st1 = Returned L2 st2"
      "load_more_pages (views site (Suc n)) st2 = (True, st3)"
      "\<not> Suc n > 30" "r = pagination_loop W cn site (Suc n) L2 st3"
proof -
  obtain L1 st1 where c: "collect_new cn (extract_workflow_links (urljoin W) (content (views site (Suc n))) cn) (L, st) = (L1, st1)"
    by (cases "collect_new cn (extract_workflow_links (urljoin W) (content (views site (Suc n))) cn) (L, st)") auto
  show thesis
  proof (cases "length (all_workflows L1) \<ge> MAX_WORKFLOWS_PER_SUBCATEGORY")
    case True
    with c assms limit show ?thesis by (simp add: pagination_loop.simps[of W cn site n L st])
  next
    case False
    then have lt: "length (all_workflows L1) < MAX_WORKFLOWS_PER_SUBCATEGORY" by simp
    show ?thesis
    proof (cases "flush_if_due W cn L1 st1")
      case (Raised e st2)
      with c lt assms raised show ?thesis by (simp add: pagination_loop.simps[of W cn site n L st])
    next
      case (Returned L2 st2)
      obtain again st3 where l: "load_more_pages (views site (Suc n)) st2 = (again, st3)"
        by (cases "load_more_pages (views site (Suc n)) st2") auto
      show ?thesis
      proof (cases "\<not> again \<or> Suc n > 30")
        case True
        with c lt Returned l assms stop[OF c lt Returned l True] show ?thesis
          by (auto simp: pagination_loop.simps[of W cn site n L st])
      next
        case False
        with c lt Returned l assms continue[OF c lt Returned] show ?thesis
          by (auto simp: pagination_loop.simps[of W cn site n L st])
      qed
    qed
  qed
qed

lemma collect_new_fst:
  "collect_new cn ws (L, st) = (L1, st1) \<Longrightarrow> traversal_invariant L \<Longrightarrow> traversal_invariant L1"
  using collect_new_invariant[of L cn ws st] by simp

lemma invariant_cong:
  "all_workflows L2 = all_workflows L1 \<Longrightarrow> processed_slugs L2 = processed_slugs L1 \<Longrightarrow>
   traversal_invariant L1 \<Longrightarrow> traversal_invariant L2"
  by (simp add: traversal_invariant_def)

lemma pagination_loop_invariant:
  "pagination_loop W cn site n L st = Returned (n', L') st' \<Longrightarrow> traversal_invariant L \<Longrightarrow>
   traversal_invariant L'"
proof (induction "31 - n" arbitrary: n L st rule: less_induct)
  case less
  from less.prems(1) show ?case
  proof (cases rule: pagination_loop_step)
    case (limit L1 st1)
    with less.prems collect_new_fst show ?thesis by auto
  next
    case (raised L1 st1 e st2)
    then show ?thesis by simp
  next
    case (stop L1 st1 L2 st2 again st3)
    with less.prems collect_new_fst[OF stop(1)] flush_if_due_returned(1,2)[OF stop(3)]
    show ?thesis by (auto intro: invariant_cong)
  next
    case (continue L1 st1 L2 st2 st3)
    have k: "31 - Suc n < 31 - n" using continue(5) by simp
    have inv: "traversal_invariant L2"
      using less.prems(2) collect_new_fst[OF continue(1)]
        flush_if_due_returned(1,2)[OF continue(3)]
      by (auto intro: invariant_cong)
    from less.hyps[OF k _ inv] continue(6) show ?thesis by simp
  qed
qed

lemma pagination_loop_pages:
  "pagination_loop W cn site n L st = Returned (n', L') st' \<Longrightarrow> n < n' \<and> n' \<le> max (Suc n) 31"
proof (induction "31 - n" arbitrary: n L st rule: less_induct)
  case less
  from less.prems(1) show ?case
  proof (cases rule: pagination_loop_step)
    case (continue L1 st1 L2 st2 st3)
    have k: "31 - Suc n < 31 - n" using continue(5) by simp
    from less.hyps[OF k] continue(6) have "Suc n < n' \<and> n' \<le> max (Suc (Suc n)) 31" by simp
    with continue(5) show ?thesis by auto
  qed auto
qed


lemma extract_nothing: "extract_workflow_links uj (\<lambda>s. Some []) cn = []"
  by (simp add: extract_workflow_links_def workflow_selectors_def)

lemma views_still_more [simp]:
  "content (views endless_listing k) = (\<lambda>s. Some [])" "load_more (views endless_listing k) = Visible"
  by (simp_all add: endless_listing_def still_more_def)

lemma emit_emit: "emit es (emit ds st) = emit (ds @ es) st"
  by (simp add: emit_def)

lemma endless_loop:
  "n \<le> 30 \<Longrightarrow>
   pagination_loop W cn endless_listing n no_locals st
     = Returned (31, no_locals) (emit (replicate (31 - n) LoadMore) st)"
proof (induction "31 - n" arbitrary: n st rule: less_induct)
  case less
  show ?case
  proof (cases "n = 30")
    case True
    then show ?thesis
      by (subst pagination_loop.simps)
         (simp add: extract_nothing no_locals_def
          MAX_WORKFLOWS_PER_SUBCATEGORY_def flush_if_due_def DOWNLOAD_BATCH_SIZE_def
          load_more_pages_def)
  next
    case False
    with less.prems have lt: "n < 30" by simp
    then have k: "31 - Suc n < 31 - n" and le: "Suc n \<le> 30" by simp_all
    have r: "replicate (31 - n) LoadMore = LoadMore # replicate (31 - Suc n) LoadMore"
      using lt by (simp add: Suc_diff_Suc flip: replicate_Suc)
    have "pagination_loop W cn endless_listing n no_locals st
        = pagination_loop W cn endless_listing (Suc n) no_locals (emit [LoadMore] st)"
      using lt
      by (subst pagination_loop.simps)
         (simp add: views_still_more extract_nothing no_locals_def
          MAX_WORKFLOWS_PER_SUBCATEGORY_def flush_if_due_def DOWNLOAD_BATCH_SIZE_def
          load_more_pages_def)
    also have "\<dots> = Returned (31, no_locals)
        (emit (replicate (31 - Suc n) LoadMore) (emit [LoadMore] st))"
      by (rule less.hyps[OF k le])
    finally show ?thesis by (simp add: emit_emit r)
  qed
qed

lemma listed_data:
  "k \<in> set [10..<26] \<Longrightarrow> is_workflow_href (href (listed_card k)) \<and>
     workflow_data site_urljoin ''Sales'' ws (listed_card k) = listed_item k"
  by (simp add: upt_rec; elim disjE; simp add: listed_card_def listed_item_def str_nat.simps
      example_simps card_simps text_simps)

lemma page_of_16_extract:
  "extract_workflow_links site_urljoin page_of_16 ''Sales'' = items_16"
  by (simp add: items_16_def extract_workflow_links_def workflow_selectors_def page_of_16_def upt_rec
      process_element_def listed_card_def listed_item_def str_nat.simps
      example_simps card_simps text_simps)

lemma count_found_files [simp]: "files (count_found cn st) = files st"
  by (simp add: count_found_def update_stats_def split: option.splits)

lemma collect_new_fresh:
  "distinct (map slug ws) \<Longrightarrow> slug ` set ws \<inter> processed_slugs L = {} \<Longrightarrow>
   length (all_workflows L) + length ws < MAX_WORKFLOWS_PER_SUBCATEGORY \<Longrightarrow>
   \<exists>L' st'. collect_new cn ws (L, st) = (L', st')
      \<and> all_workflows L' = all_workflows L @ ws
      \<and> pending_downloads L' = pending_downloads L @ ws
      \<and> files st' = files st \<and> trace st' = trace st"
proof (induction ws arbitrary: L st)
  case Nil
  show ?case by simp
next
  case (Cons w ws)
  let ?L1 = "L\<lparr>all_workflows := all_workflows L @ [w],
                   processed_slugs := insert (slug w) (processed_slugs L),
                   pending_downloads := pending_downloads L @ [w]\<rparr>"
  have 1: "distinct (map slug ws)" using Cons.prems(1) by simp
  have 2: "slug ` set ws \<inter> processed_slugs ?L1 = {}" using Cons.prems(1,2) by auto
  have 3: "length (all_workflows ?L1) + length ws < MAX_WORKFLOWS_PER_SUBCATEGORY"
    using Cons.prems(3) by simp
  from Cons.IH[OF 1 2 3, of "count_found cn st"] obtain L' st' where
    "collect_new cn ws (?L1, count_found cn st) = (L', st')"
    "all_workflows L' = all_workflows ?L1 @ ws"
    "pending_downloads L' = pending_downloads ?L1 @ ws"
    "files st' = files (count_found cn st)" "trace st' = trace (count_found cn st)"
    by blast
  moreover have "slug w \<notin> processed_slugs L" using Cons.prems(2) by auto
  moreover have "length (all_workflows L) < MAX_WORKFLOWS_PER_SUBCATEGORY"
    "\<not> MAX_WORKFLOWS_PER_SUBCATEGORY \<le> length (all_workflows ?L1)"
    using Cons.prems(3) by simp_all
  ultimately show ?case by (simp add: Let_def)
qed

lemma download_batch_returns:
  "\<forall>w \<in> set ws. \<not> is_regular_file (files st) (category w) \<Longrightarrow>
   \<exists>st'. download_batch_immediately W ws cn st = Returned () st'"
proof (cases "ws = []")
  case True
  then show ?thesis by (simp add: download_batch_immediately_def)
next
  case False
  assume nr: "\<forall>w \<in> set ws. \<not> is_regular_file (files st) (category w)"
  let ?b = "min 3 (length ws)"
  let ?st1 = "emit (Batch ws # map NewTab [0..<?b]) st"
  from nr have "\<forall>w \<in> set ws. \<not> is_regular_file (files ?st1) (category w)" by simp
  from download_items_round_robin[OF this, where W = W and cn = cn and b = ?b and i = 0]
  show ?thesis using False by (auto simp: download_batch_immediately_def Let_def)
qed

lemma items_16_facts:
  "distinct (map slug items_16)" "length items_16 = 16"
  "\<forall>w \<in> set items_16. category w = ''Sales''"
  by (simp_all add: items_16_def upt_rec listed_item_def str_nat.simps)

lemma body_16:
  "\<exists>L st'. scrape_category_body world_16 sales fresh_state = Returned (1, L) st'
     \<and> all_workflows L = items_16
     \<and> batches_of (trace st') = [items_16]"
proof -
  let ?st1 = "emit [Visit (category_url sales)] fresh_state"
  let ?site = "\<lparr>goto_ok = True, views = (\<lambda>k. single_page)\<rparr>"
  have "slug ` set items_16 \<inter> processed_slugs no_locals = {}"
    "length (all_workflows no_locals) + length items_16 < MAX_WORKFLOWS_PER_SUBCATEGORY"
    by (simp_all add: no_locals_def items_16_facts MAX_WORKFLOWS_PER_SUBCATEGORY_def)
  from collect_new_fresh[OF items_16_facts(1) this, of "''Sales''" ?st1]
  obtain L1 st2 where
    c: "collect_new ''Sales'' items_16 (no_locals, ?st1) = (L1, st2)"
    and a: "all_workflows L1 = items_16" and p: "pending_downloads L1 = items_16"
    and f: "files st2 = files ?st1" and t: "trace st2 = trace ?st1"
    by (auto simp: no_locals_def)
  have "\<forall>w \<in> set items_16. \<not> is_regular_file (files st2) (category w)"
    by (simp add: f items_16_facts fresh_state_def no_files_def is_regular_file_def)
  from download_batch_returns[OF this, of world_16 "''Sales''"] obtain st3 where
    d: "download_batch_immediately world_16 items_16 ''Sales'' st2 = Returned () st3" by blast
  have ne: "items_16 \<noteq> []" using items_16_facts(2) by auto
  have b3: "batches_of (trace st3) = [items_16]"
    using download_batch_batches[of world_16 items_16 "''Sales''" st2] d t ne
    by (simp add: fresh_state_def)
  have fl: "flush_if_due world_16 ''Sales'' L1 st2 = Returned (L1\<lparr>pending_downloads := []\<rparr>) st3"
    using d p by (simp add: flush_if_due_def DOWNLOAD_BATCH_SIZE_def items_16_facts)
  have v: "content (views ?site (Suc 0)) = page_of_16" "load_more (views ?site (Suc 0)) = Missing"
    by (simp_all add: single_page_def)
  have u: "urljoin world_16 = site_urljoin" by (simp add: world_16_def world_d_def)
  have loop: "pagination_loop world_16 ''Sales'' ?site 0 no_locals ?st1
      = Returned (1, L1\<lparr>pending_downloads := []\<rparr>) st3"
    by (subst pagination_loop.simps)
       (simp add: single_page_def u page_of_16_extract c a fl items_16_facts
          MAX_WORKFLOWS_PER_SUBCATEGORY_def load_more_pages_def)
  have l: "listings world_16 (category_url sales) = ?site" by (simp add: world_16_def)
  have n: "c_name sales = ''Sales''" by (simp add: sales_def known_category_def)
  have "scrape_category_body world_16 sales fresh_state
      = Returned (1, L1\<lparr>pending_downloads := []\<rparr>) st3"
    by (simp add: scrape_category_body_def Let_def l n loop)
  with a b3 show ?thesis by simp
qed

text \<open>
  C5. The loop is a total function: it returns or raises for every site. But on a listing
  whose load-more control stays visible and that never fills the limit, it makes 31
  passes and 31 clicks, not 30: the bound is checked as \<^verbatim>\<open>pages_loaded > 30\<close> after the
  click, while the message it logs speaks of 30 pages.
\<close>

theorem pagination_runs_31_passes:
  "returned (scrape_category_body world_endless sales fresh_state) = Some (31, no_locals)
   \<and> trace (state_of (scrape_category_body world_endless sales fresh_state))
       = Visit (category_url sales) # replicate 31 LoadMore"
  using endless_loop[of 0 world_endless "c_name sales" "emit [Visit (category_url sales)] fresh_state"]
  by (simp add: scrape_category_body_def Let_def world_endless_def endless_listing_def
      returned_def no_locals_def emit_def fresh_state_def)

text \<open>
  C8. The accumulated list has pairwise distinct slugs, all recorded in
  \<^verbatim>\<open>processed_slugs\<close>, and at most \<^verbatim>\<open>MAX_WORKFLOWS_PER_SUBCATEGORY\<close> items: this holds at
  the start, is kept by every pass over the items of a page, and holds for the list with
  which the traversal of a (sub)category ends.
\<close>

theorem traversal_distinct_bounded:
  "traversal_invariant no_locals
   \<and> (traversal_invariant L \<longrightarrow> traversal_invariant (fst (collect_new cn ws (L, st))))
   \<and> (scrape_category_body W c st0 = Returned (n, L') st' \<longrightarrow>
        distinct (map slug (all_workflows L'))
        \<and> length (all_workflows L') \<le> MAX_WORKFLOWS_PER_SUBCATEGORY)"
proof -
  have a: "traversal_invariant no_locals"
    by (simp add: traversal_invariant_def no_locals_def)
  have b: "traversal_invariant (fst (collect_new cn ws (L, st)))" if "traversal_invariant L"
    using that by (rule collect_new_invariant)
  have c: "distinct (map slug (all_workflows L'))
        \<and> length (all_workflows L') \<le> MAX_WORKFLOWS_PER_SUBCATEGORY"
    if d: "scrape_category_body W c st0 = Returned (n, L') st'"
  proof -
    from d obtain st2 where
      "pagination_loop W (c_name c) (listings W (category_url c)) 0 no_locals
          (emit [Visit (category_url c)] st0) = Returned (n, L') st2"
      by (auto simp: scrape_category_body_def Let_def split: if_splits outcome.splits prod.splits)
    from pagination_loop_invariant[OF this a] show ?thesis
      by (simp add: traversal_invariant_def)
  qed
  from a b c show ?thesis by blast
qed

theorem traversal_distinct_bounded_witness:
  "traversal_invariant no_locals
   \<and> length (extract_workflow_links site_urljoin page_twins ''Sales'') = 2
   \<and> traversal_invariant (fst (collect_new ''Sales''
        (extract_workflow_links site_urljoin page_twins ''Sales'') (no_locals, fresh_state)))
   \<and> length (all_workflows (fst (collect_new ''Sales''
        (extract_workflow_links site_urljoin page_twins ''Sales'') (no_locals, fresh_state)))) = 1
   \<and> returned (scrape_category_body world_16 sales fresh_state) \<noteq> None
   \<and> distinct (map slug (all_workflows
        (snd (the (returned (scrape_category_body world_16 sales fresh_state))))))
   \<and> length (all_workflows
        (snd (the (returned (scrape_category_body world_16 sales fresh_state))))) = 16"
proof -
  from body_16 obtain L st' where
    b: "scrape_category_body world_16 sales fresh_state = Returned (1, L) st'"
    and a: "all_workflows L = items_16" by blast
  note t = traversal_distinct_bounded [where L = no_locals and cn = "''Sales''"
      and ws = "extract_workflow_links site_urljoin page_twins ''Sales''" and st = fresh_state
      and W = world_16 and c = sales and ?st0.0 = fresh_state and n = 1 and L' = L and st' = st']
  have i: "traversal_invariant no_locals" using t by blast
  have j: "traversal_invariant (fst (collect_new ''Sales''
        (extract_workflow_links site_urljoin page_twins ''Sales'') (no_locals, fresh_state)))"
    using t by blast
  have d: "distinct (map slug (all_workflows L))" using t b by blast
  have n: "length (all_workflows (fst (collect_new ''Sales''
        (extract_workflow_links site_urljoin page_twins ''Sales'') (no_locals, fresh_state)))) = 1"
    by (simp add: page_twins_extract no_locals_def MAX_WORKFLOWS_PER_SUBCATEGORY_def Let_def)
  from i j d n b a show ?thesis
    by (simp add: returned_def items_16_facts page_twins_extract)
qed




section \<open>Properties of the whole run\<close>



lemma ensure_stats_trace [simp]: "trace (ensure_stats cn st) = trace st"
  by (simp add: ensure_stats_def)



lemma count_subcategories_trace [simp]: "trace (count_subcategories k st) = trace st"
  by (simp add: count_subcategories_def)







end
